theory Spec2Isabelle
  imports Main "HOL-Library.Word"
begin

unbundle bit_operations_syntax

section \<open>The asynchronous socket layer of \<^verbatim>\<open>src/utils/aio.c\<close> (POSIX path)\<close>

text \<open>
  The file has two halves selected by \<^verbatim>\<open>SP_HAVE_WINDOWS\<close>. This development embeds the
  half compiled when that macro is undefined: the user socket (\<^verbatim>\<open>sp_usock_*\<close>) over the
  POSIX socket calls and the emulated completion port (\<^verbatim>\<open>sp_cp_*\<close>), a circular buffer
  guarded by a mutex with an eventfd-style wakeup signal.

  C \<^verbatim>\<open>int\<close> is a 32-bit word, \<^verbatim>\<open>size_t\<close> and \<^verbatim>\<open>ssize_t\<close> are 64-bit words; a signed
  reading is taken with \<open>sint\<close> or the signed order \<open>\<le>s\<close>, \<open><s\<close>.
\<close>

type_synonym c_int = "32 word"
type_synonym size_t = "64 word"
type_synonym ssize_t = "64 word"

subsection \<open>Fatal assertions\<close>

text \<open>
  Modelled from the spec: the macros \<^verbatim>\<open>sp_assert\<close>, \<^verbatim>\<open>errno_assert\<close>, \<^verbatim>\<open>errnum_assert\<close> and
  \<^verbatim>\<open>alloc_assert\<close> come from \<^verbatim>\<open>err.h\<close>, which is not among the sources. The spec calls
  them fatal assertions, not recoverable errors: a failed one ends the process and the
  call returns nothing to its caller. The model gives such a call the value
  \<open>Inl AssertionFailed\<close>.
\<close>

datatype fault = AssertionFailed

subsection \<open>Completion queue: data\<close>

text \<open>
  \<^verbatim>\<open>struct sp_cp_item { int op; void *arg; }\<close>. The opaque argument is a type parameter.
\<close>

record 'a sp_cp_item =
  item_op :: c_int
  item_arg :: 'a

text \<open>
  Modelled from the spec: \<^verbatim>\<open>struct sp_cp\<close> is declared in \<^verbatim>\<open>aio.h\<close>, which is not among
  the sources; the fields are those \<^verbatim>\<open>sp_cp_init\<close> assigns. The spec gives the queue
  a capacity and head/tail cursors without a width, so they are natural numbers here.
  \<open>items\<close> is the memory behind the \<^verbatim>\<open>items\<close> pointer, read by item offset; the block
  obtained from the allocator covers the offsets below \<open>capacity\<close>, and what lies in a
  cell that was never written is whatever the memory held (lemma \<open>cp_inv_bounds\<close>
  shows that every access of the code stays inside the block).

  Modelled from the spec: the wakeup primitive \<^verbatim>\<open>sp_eventfd\<close> is an external signal object
  that can be raised and lowered; \<open>eventfd\<close> is \<open>True\<close> while it is raised.
\<close>

record 'a sp_cp =
  eventfd :: bool
  capacity :: nat
  head :: nat
  tail :: nat
  items :: "nat \<Rightarrow> 'a sp_cp_item"

definition sp_eventfd_init :: bool where
  "sp_eventfd_init = False"

definition sp_eventfd_signal :: "bool \<Rightarrow> bool" where
  "sp_eventfd_signal e = True"

definition sp_eventfd_unsignal :: "bool \<Rightarrow> bool" where
  "sp_eventfd_unsignal e = False"

definition SP_CP_INITIAL_CAPACITY :: nat where
  "SP_CP_INITIAL_CAPACITY = 64"

text \<open>
  \<^verbatim>\<open>memcpy (dst, src, n)\<close> on item offsets, for regions that do not overlap (the only
  use copies from below \<open>capacity\<close> to \<open>capacity\<close> and above).
\<close>

definition memcpy_items :: "(nat \<Rightarrow> 'x) \<Rightarrow> nat \<Rightarrow> nat \<Rightarrow> nat \<Rightarrow> (nat \<Rightarrow> 'x)" where
  "memcpy_items m dst src n = (\<lambda>i. if dst \<le> i \<and> i < dst + n then m (src + (i - dst)) else m i)"

subsection \<open>Completion queue: operations\<close>

text \<open>
  \<^verbatim>\<open>sp_cp_init\<close>. Modelled from the spec: \<^verbatim>\<open>sp_alloc\<close>, \<^verbatim>\<open>sp_realloc\<close> (\<^verbatim>\<open>alloc.h\<close>) are not
  among the sources; the spec takes the allocator as a correct black box and says that
  post never fails, so an allocation succeeds. \<open>mem\<close> is the indeterminate content of
  the memory handed out. The mutex and the poller registration carry no data.
\<close>

definition sp_cp_init :: "(nat \<Rightarrow> 'a sp_cp_item) \<Rightarrow> 'a sp_cp" where
  "sp_cp_init mem =
     \<lparr> eventfd = sp_eventfd_init,
       capacity = SP_CP_INITIAL_CAPACITY,
       head = 0,
       tail = 0,
       items = mem \<rparr>"

text \<open>
  \<^verbatim>\<open>sp_cp_post\<close>, the body between \<^verbatim>\<open>sp_mutex_lock\<close> and \<^verbatim>\<open>sp_mutex_unlock\<close>: store the
  item at \<open>tail\<close>, remember whether the queue was empty, advance \<open>tail\<close> modulo the
  capacity; when \<open>tail\<close> has caught up with \<open>head\<close>, reallocate to twice the capacity,
  copy the cells below \<open>tail\<close> to \<open>capacity\<close> and above, move \<open>tail\<close> up by the old
  capacity and double the capacity; at the end signal the eventfd if the queue was
  empty.
\<close>

definition sp_cp_post :: "'a sp_cp \<Rightarrow> c_int \<Rightarrow> 'a \<Rightarrow> 'a sp_cp" where
  "sp_cp_post self opc a =
     (let self1 = self \<lparr> items := (items self) (tail self := \<lparr> item_op = opc, item_arg = a \<rparr>) \<rparr>;
          empty = (tail self1 = head self1);
          self2 = self1 \<lparr> tail := (tail self1 + 1) mod capacity self1 \<rparr>;
          self3 = (if head self2 = tail self2
                   then self2 \<lparr> items := memcpy_items (items self2) (capacity self2) 0 (tail self2),
                                tail := tail self2 + capacity self2,
                                capacity := capacity self2 * 2 \<rparr>
                   else self2)
      in if empty then self3 \<lparr> eventfd := sp_eventfd_signal (eventfd self3) \<rparr> else self3)"

text \<open>
  The critical section of \<^verbatim>\<open>sp_cp_wait\<close>, which the function runs once before the poller
  and once after it: if the queue is not empty, read the item at \<open>head\<close>, advance \<open>head\<close>
  modulo the capacity, and unsignal the eventfd when \<open>head\<close> has reached \<open>tail\<close>.
\<close>

definition sp_cp_wait_locked :: "'a sp_cp \<Rightarrow> (c_int \<times> 'a) option \<times> 'a sp_cp" where
  "sp_cp_wait_locked self =
     (if head self \<noteq> tail self then
        (let it = items self (head self);
             self1 = self \<lparr> head := (head self + 1) mod capacity self \<rparr>;
             self2 = (if head self1 = tail self1
                      then self1 \<lparr> eventfd := sp_eventfd_unsignal (eventfd self1) \<rparr>
                      else self1)
         in (Some (item_op it, item_arg it), self2))
      else (None, self))"

text \<open>Errno values of the platform (\<^verbatim>\<open>errno.h\<close> of Linux; POSIX keeps them positive and
  pairwise distinct, except that \<^verbatim>\<open>EAGAIN\<close> and \<^verbatim>\<open>EWOULDBLOCK\<close> may coincide).\<close>

definition EINTR :: c_int where "EINTR = 4"
definition EAGAIN :: c_int where "EAGAIN = 11"
definition EWOULDBLOCK :: c_int where "EWOULDBLOCK = 11"
definition EPIPE :: c_int where "EPIPE = 32"
definition ECONNRESET :: c_int where "ECONNRESET = 104"
definition ENOTCONN :: c_int where "ENOTCONN = 107"
definition ETIMEDOUT :: c_int where "ETIMEDOUT = 110"
definition ECONNREFUSED :: c_int where "ECONNREFUSED = 111"
definition EHOSTUNREACH :: c_int where "EHOSTUNREACH = 113"
definition EINPROGRESS :: c_int where "EINPROGRESS = 115"

text \<open>
  What \<^verbatim>\<open>sp_poller_wait\<close> hands back (the poller is external): its return code and
  whether the handle it reports is the one registered for the eventfd.
\<close>

record poller_reply =
  poll_rc :: c_int
  poll_is_evhndl :: bool

text \<open>
  \<^verbatim>\<open>sp_cp_wait\<close> as one thread runs it. \<open>poller timeout\<close> is the reply of
  \<^verbatim>\<open>sp_poller_wait\<close>. The result is the return code with the pair written to
  \<^verbatim>\<open>*op\<close>, \<^verbatim>\<open>*arg\<close> (\<open>None\<close> when they are left untouched), or the fatal assertion.
\<close>

definition sp_cp_wait ::
  "(c_int \<Rightarrow> poller_reply) \<Rightarrow> 'a sp_cp \<Rightarrow> c_int \<Rightarrow> (fault + c_int \<times> (c_int \<times> 'a) option) \<times> 'a sp_cp" where
  "sp_cp_wait poller self timeout =
     (case sp_cp_wait_locked self of
        (Some ev, self') \<Rightarrow> (Inr (0, Some ev), self')
      | (None, self') \<Rightarrow>
          (let r = poller timeout in
           if poll_rc r = - ETIMEDOUT \<or> poll_rc r = - EINTR then (Inr (poll_rc r, None), self')
           else if poll_rc r \<noteq> 0 then (Inl AssertionFailed, self')
           else if \<not> poll_is_evhndl r then (Inl AssertionFailed, self')
           else (case sp_cp_wait_locked self' of
                   (Some ev, self'') \<Rightarrow> (Inr (0, Some ev), self'')
                 | (None, self'') \<Rightarrow> (Inr (- ETIMEDOUT, None), self''))))"

text \<open>Posting a list of events one after the other, oldest first.\<close>

fun sp_cp_posts :: "'a sp_cp \<Rightarrow> (c_int \<times> 'a) list \<Rightarrow> 'a sp_cp" where
  "sp_cp_posts q [] = q"
| "sp_cp_posts q (p # ps) = sp_cp_posts (sp_cp_post q (fst p) (snd p)) ps"

text \<open>
  \<open>n\<close> successive calls of \<^verbatim>\<open>sp_cp_wait\<close> by one consumer, collecting what each call
  returned. A fatal assertion ends the process, so nothing is called after it.
\<close>

fun sp_cp_waits ::
  "(c_int \<Rightarrow> poller_reply) \<Rightarrow> c_int \<Rightarrow> nat \<Rightarrow> 'a sp_cp
     \<Rightarrow> (fault + c_int \<times> (c_int \<times> 'a) option) list \<times> 'a sp_cp" where
  "sp_cp_waits poller timeout 0 q = ([], q)"
| "sp_cp_waits poller timeout (Suc n) q =
     (case sp_cp_wait poller q timeout of
        (Inl e, q') \<Rightarrow> ([Inl e], q')
      | (Inr r, q') \<Rightarrow>
          (case sp_cp_waits poller timeout n q' of (rs, q'') \<Rightarrow> (Inr r # rs, q'')))"

subsection \<open>Completion queue: what a state stores\<close>

text \<open>The cursors lie inside the allocated block.\<close>

definition cp_inv :: "'a sp_cp \<Rightarrow> bool" where
  "cp_inv q \<longleftrightarrow> head q < capacity q \<and> tail q < capacity q"

text \<open>The offsets of the stored events, oldest first: from \<open>head\<close> up to \<open>tail\<close>, around
  the end of the block when \<open>tail\<close> is below \<open>head\<close>.\<close>

definition cp_live :: "'a sp_cp \<Rightarrow> nat list" where
  "cp_live q = (if head q \<le> tail q then [head q..<tail q]
                else [head q..<capacity q] @ [0..<tail q])"

definition event_of :: "'a sp_cp_item \<Rightarrow> c_int \<times> 'a" where
  "event_of it = (item_op it, item_arg it)"

definition cp_events :: "'a sp_cp \<Rightarrow> (c_int \<times> 'a) list" where
  "cp_events q = map (\<lambda>i. event_of (items q i)) (cp_live q)"

text \<open>
  The states a completion port can be in: the mutex makes the body of \<^verbatim>\<open>sp_cp_post\<close> and
  each critical section of \<^verbatim>\<open>sp_cp_wait\<close> atomic, and the poller call between the two
  sections of a wait touches no field, so every interleaving of posts and waits by any
  number of threads is a sequence of these two steps from the initial state.
\<close>

inductive cp_reachable :: "'a sp_cp \<Rightarrow> bool" where
  reach_init: "cp_reachable (sp_cp_init mem)"
| reach_post: "cp_reachable q \<Longrightarrow> cp_reachable (sp_cp_post q opc a)"
| reach_wait: "cp_reachable q \<Longrightarrow> cp_reachable (snd (sp_cp_wait_locked q))"

subsection \<open>User socket: data and platform\<close>

text \<open>
  Modelled from the spec: \<^verbatim>\<open>struct sp_usock\<close> is declared in \<^verbatim>\<open>aio.h\<close>, which is not among
  the sources; the fields are those \<^verbatim>\<open>sp_usock_init\<close> assigns: the raw handle, the address
  family, the socket type, the protocol number and the back-reference to the completion
  port (\<open>None\<close> for \<^verbatim>\<open>NULL\<close>). \<open>'p\<close> is the type of pointers to completion ports.
\<close>

record 'p sp_usock =
  us_s :: c_int
  us_domain :: c_int
  us_type :: c_int
  us_protocol :: c_int
  us_aio :: "'p option"

text \<open>
  What the headers that are not among the sources define. The macros the code tests
  with \<^verbatim>\<open>#ifdef\<close> are optional; \<^verbatim>\<open>SP_USOCK_PARTIAL\<close> is the flag bit of \<^verbatim>\<open>aio.h\<close>.
\<close>

record build =
  SOCK_CLOEXEC :: "c_int option"
  FD_CLOEXEC :: "c_int option"
  SO_NOSIGPIPE :: "c_int option"
  TCP_NODELACK :: "c_int option"
  IPV6_V6ONLY :: "c_int option"
  MSG_NOSIGNAL :: "c_int option"
  SP_USOCK_PARTIAL :: c_int

text \<open>Constants of the socket API, with the values of Linux.\<close>

definition AF_INET :: c_int where "AF_INET = 2"
definition AF_INET6 :: c_int where "AF_INET6 = 10"
definition SOCK_STREAM :: c_int where "SOCK_STREAM = 1"
definition SOL_SOCKET :: c_int where "SOL_SOCKET = 1"
definition IPPROTO_TCP :: c_int where "IPPROTO_TCP = 6"
definition IPPROTO_IPV6 :: c_int where "IPPROTO_IPV6 = 41"
definition TCP_NODELAY :: c_int where "TCP_NODELAY = 1"
definition F_SETFD :: c_int where "F_SETFD = 2"
definition F_GETFL :: c_int where "F_GETFL = 3"
definition F_SETFL :: c_int where "F_SETFL = 4"
definition O_NONBLOCK :: c_int where "O_NONBLOCK = 2048"

text \<open>A Linux build: \<^verbatim>\<open>SOCK_CLOEXEC\<close> is 02000000, \<^verbatim>\<open>MSG_NOSIGNAL\<close> is 0x4000, and neither
  \<^verbatim>\<open>SO_NOSIGPIPE\<close> nor \<^verbatim>\<open>TCP_NODELACK\<close> exists.\<close>

definition linux_build :: build where
  "linux_build =
     \<lparr> SOCK_CLOEXEC = Some 524288, FD_CLOEXEC = Some 1, SO_NOSIGPIPE = None,
       TCP_NODELACK = None, IPV6_V6ONLY = Some 26, MSG_NOSIGNAL = Some 16384,
       SP_USOCK_PARTIAL = 1 \<rparr>"

text \<open>The same build on a system whose headers lack \<^verbatim>\<open>SOCK_CLOEXEC\<close>.\<close>

definition legacy_build :: build where
  "legacy_build = linux_build \<lparr> SOCK_CLOEXEC := None \<rparr>"

text \<open>
  The platform calls the code makes, as they appear in the log of a run, and the
  operating system as the replies it gives: \<^verbatim>\<open>socket\<close> answers with a handle and
  \<^verbatim>\<open>errno\<close>, \<^verbatim>\<open>fcntl\<close> and \<^verbatim>\<open>setsockopt\<close> with a return code, \<^verbatim>\<open>send\<close> and \<^verbatim>\<open>recv\<close> with a
  byte count (\<^verbatim>\<open>ssize_t\<close>) and \<^verbatim>\<open>errno\<close>. The buffers are not modelled: the code never
  looks into them.
\<close>

datatype syscall =
    Sys_socket c_int c_int c_int
  | Sys_fcntl c_int c_int c_int
  | Sys_setsockopt c_int c_int c_int c_int
  | Sys_send c_int size_t c_int
  | Sys_recv c_int size_t c_int

record os =
  os_socket :: "c_int \<Rightarrow> c_int \<Rightarrow> c_int \<Rightarrow> c_int \<times> c_int"
  os_fcntl :: "c_int \<Rightarrow> c_int \<Rightarrow> c_int \<Rightarrow> c_int"
  os_setsockopt :: "c_int \<Rightarrow> c_int \<Rightarrow> c_int \<Rightarrow> c_int \<Rightarrow> c_int"
  os_send :: "c_int \<Rightarrow> size_t \<Rightarrow> c_int \<Rightarrow> ssize_t \<times> c_int"
  os_recv :: "c_int \<Rightarrow> size_t \<Rightarrow> c_int \<Rightarrow> ssize_t \<times> c_int"

text \<open>A computation that appends its platform calls to the log and either returns a
  value or dies in a fatal assertion.\<close>

type_synonym 'a io = "syscall list \<Rightarrow> (fault + 'a) \<times> syscall list"

definition io_return :: "'a \<Rightarrow> 'a io" where
  "io_return a = (\<lambda>log. (Inr a, log))"

definition io_bind :: "'a io \<Rightarrow> ('a \<Rightarrow> 'b io) \<Rightarrow> 'b io" where
  "io_bind m f = (\<lambda>log. case m log of (Inl e, log') \<Rightarrow> (Inl e, log') | (Inr a, log') \<Rightarrow> f a log')"

definition sp_assert :: "bool \<Rightarrow> unit io" where
  "sp_assert c = (\<lambda>log. (if c then Inr () else Inl AssertionFailed, log))"

definition errno_assert :: "bool \<Rightarrow> unit io" where
  "errno_assert c = sp_assert c"

definition sys_socket :: "os \<Rightarrow> c_int \<Rightarrow> c_int \<Rightarrow> c_int \<Rightarrow> (c_int \<times> c_int) io" where
  "sys_socket os d t p = (\<lambda>log. (Inr (os_socket os d t p), log @ [Sys_socket d t p]))"

definition sys_fcntl :: "os \<Rightarrow> c_int \<Rightarrow> c_int \<Rightarrow> c_int \<Rightarrow> c_int io" where
  "sys_fcntl os fd cmd v = (\<lambda>log. (Inr (os_fcntl os fd cmd v), log @ [Sys_fcntl fd cmd v]))"

definition sys_setsockopt :: "os \<Rightarrow> c_int \<Rightarrow> c_int \<Rightarrow> c_int \<Rightarrow> c_int \<Rightarrow> c_int io" where
  "sys_setsockopt os fd lvl opt v =
     (\<lambda>log. (Inr (os_setsockopt os fd lvl opt v), log @ [Sys_setsockopt fd lvl opt v]))"

definition sys_send :: "os \<Rightarrow> c_int \<Rightarrow> size_t \<Rightarrow> c_int \<Rightarrow> (ssize_t \<times> c_int) io" where
  "sys_send os fd len fl = (\<lambda>log. (Inr (os_send os fd len fl), log @ [Sys_send fd len fl]))"

definition sys_recv :: "os \<Rightarrow> c_int \<Rightarrow> size_t \<Rightarrow> c_int \<Rightarrow> (ssize_t \<times> c_int) io" where
  "sys_recv os fd len fl = (\<lambda>log. (Inr (os_recv os fd len fl), log @ [Sys_recv fd len fl]))"

subsection \<open>User socket: operations\<close>

text \<open>
  \<^verbatim>\<open>sp_usock_tune\<close> with \<^verbatim>\<open>SP_HAVE_WINDOWS\<close> undefined, one definition per block of the
  function, in the order of the source.
\<close>

definition tune_nosigpipe :: "build \<Rightarrow> os \<Rightarrow> 'p sp_usock \<Rightarrow> unit io" where
  "tune_nosigpipe b os self =
     (case SO_NOSIGPIPE b of
        None \<Rightarrow> io_return ()
      | Some opt \<Rightarrow>
          io_bind (sys_setsockopt os (us_s self) SOL_SOCKET opt 1) (\<lambda>rc.
          errno_assert (rc = 0)))"

definition tune_nonblock :: "os \<Rightarrow> 'p sp_usock \<Rightarrow> unit io" where
  "tune_nonblock os self =
     io_bind (sys_fcntl os (us_s self) F_GETFL 0) (\<lambda>flags0.
     let flags = (if flags0 = - 1 then 0 else flags0) in
     io_bind (sys_fcntl os (us_s self) F_SETFL (flags OR O_NONBLOCK)) (\<lambda>rc.
     errno_assert (rc \<noteq> - 1)))"

definition tune_nodelay :: "os \<Rightarrow> 'p sp_usock \<Rightarrow> unit io" where
  "tune_nodelay os self =
     (if (us_domain self = AF_INET \<or> us_domain self = AF_INET6) \<and> us_type self = SOCK_STREAM
      then io_bind (sys_setsockopt os (us_s self) IPPROTO_TCP TCP_NODELAY 1) (\<lambda>rc.
           errno_assert (rc = 0))
      else io_return ())"

definition tune_nodelack :: "build \<Rightarrow> os \<Rightarrow> 'p sp_usock \<Rightarrow> unit io" where
  "tune_nodelack b os self =
     (case TCP_NODELACK b of
        None \<Rightarrow> io_return ()
      | Some opt \<Rightarrow>
          io_bind (sys_setsockopt os (us_s self) IPPROTO_TCP opt 1) (\<lambda>rc.
          errno_assert (rc = 0)))"

definition tune_v6only :: "build \<Rightarrow> os \<Rightarrow> 'p sp_usock \<Rightarrow> unit io" where
  "tune_v6only b os self =
     (case IPV6_V6ONLY b of
        None \<Rightarrow> io_return ()
      | Some opt \<Rightarrow>
          if us_domain self = AF_INET6
          then io_bind (sys_setsockopt os (us_s self) IPPROTO_IPV6 opt 0) (\<lambda>rc.
               errno_assert (rc = 0))
          else io_return ())"

definition sp_usock_tune :: "build \<Rightarrow> os \<Rightarrow> 'p sp_usock \<Rightarrow> unit io" where
  "sp_usock_tune b os self =
     io_bind (tune_nosigpipe b os self) (\<lambda>_.
     io_bind (tune_nonblock os self) (\<lambda>_.
     io_bind (tune_nodelay os self) (\<lambda>_.
     io_bind (tune_nodelack b os self) (\<lambda>_.
     tune_v6only b os self))))"

text \<open>
  \<^verbatim>\<open>sp_usock_init\<close>: with \<^verbatim>\<open>SOCK_CLOEXEC\<close> defined the flag is or-ed into the local \<^verbatim>\<open>type\<close>
  before the socket is opened, and that \<^verbatim>\<open>type\<close> is what the function stores in the
  socket; without it, and with \<^verbatim>\<open>FD_CLOEXEC\<close>, the flag is set by \<^verbatim>\<open>fcntl\<close> after the
  fields are filled in. The result is the return code and the socket as the call
  leaves it.
\<close>

definition init_cloexec :: "build \<Rightarrow> os \<Rightarrow> 'p sp_usock \<Rightarrow> unit io" where
  "init_cloexec b os self =
     (case (SOCK_CLOEXEC b, FD_CLOEXEC b) of
        (None, Some fdc) \<Rightarrow>
          io_bind (sys_fcntl os (us_s self) F_SETFD fdc) (\<lambda>rc.
          errno_assert (rc \<noteq> - 1))
      | _ \<Rightarrow> io_return ())"

definition sp_usock_init ::
  "build \<Rightarrow> os \<Rightarrow> 'p sp_usock \<Rightarrow> c_int \<Rightarrow> c_int \<Rightarrow> c_int \<Rightarrow> (c_int \<times> 'p sp_usock) io" where
  "sp_usock_init b os self domain type0 protocol =
     (let type = (case SOCK_CLOEXEC b of Some c \<Rightarrow> type0 OR c | None \<Rightarrow> type0) in
      io_bind (sys_socket os domain type protocol) (\<lambda>(fd, errno).
      let self1 = self \<lparr> us_s := fd \<rparr> in
      if fd <s 0 then io_return (- errno, self1)
      else
        (let self2 = self1 \<lparr> us_domain := domain, us_type := type, us_protocol := protocol,
                             us_aio := None \<rparr> in
         io_bind (init_cloexec b os self2) (\<lambda>_.
         io_bind (sp_usock_tune b os self2) (\<lambda>_.
         io_return (0, self2))))))"

text \<open>
  \<^verbatim>\<open>sp_cp_register_usock\<close>: \<open>self\<close> points to the completion port.
\<close>

definition sp_cp_register_usock :: "'p \<Rightarrow> 'p sp_usock \<Rightarrow> fault + 'p sp_usock" where
  "sp_cp_register_usock self usock =
     (if us_aio usock \<noteq> None then Inl AssertionFailed
      else Inr (usock \<lparr> us_aio := Some self \<rparr>))"

text \<open>Registering a socket with one port after the other; a fatal assertion ends the run.\<close>

fun register_all :: "'p list \<Rightarrow> 'p sp_usock \<Rightarrow> fault + 'p sp_usock" where
  "register_all [] usock = Inr usock"
| "register_all (p # ps) usock =
     (case sp_cp_register_usock p usock of
        Inl e \<Rightarrow> Inl e
      | Inr usock' \<Rightarrow> register_all ps usock')"

text \<open>
  The label \<^verbatim>\<open>async:\<close> of \<^verbatim>\<open>sp_usock_send\<close> and \<^verbatim>\<open>sp_usock_recv\<close>: \<^verbatim>\<open>sp_assert (0)\<close>, then
  \<^verbatim>\<open>return -EINPROGRESS\<close>.
\<close>

definition usock_async :: "size_t \<Rightarrow> (c_int \<times> size_t) io" where
  "usock_async len = io_bind (sp_assert False) (\<lambda>_. io_return (- EINPROGRESS, len))"

text \<open>
  \<^verbatim>\<open>sp_usock_send\<close>. The result is the return code and the final value of \<^verbatim>\<open>*len\<close>.
  \<^verbatim>\<open>nbytes == *len\<close> compares an \<^verbatim>\<open>ssize_t\<close> with a \<^verbatim>\<open>size_t\<close>: C converts both to
  \<^verbatim>\<open>size_t\<close>, so the comparison is that of the two words; \<^verbatim>\<open>nbytes < 0\<close> is signed.
\<close>

definition sp_usock_send ::
  "build \<Rightarrow> os \<Rightarrow> 'p sp_usock \<Rightarrow> size_t \<Rightarrow> c_int \<Rightarrow> (c_int \<times> size_t) io" where
  "sp_usock_send b os self len flags =
     (let sflags = (case MSG_NOSIGNAL b of Some f \<Rightarrow> f | None \<Rightarrow> 0) in
      if len = 0 then io_return (0, len)
      else
        io_bind (sys_send os (us_s self) len sflags) (\<lambda>(nbytes, errno).
        if nbytes = len then io_return (0, len)
        else if nbytes <s 0 then
          (if errno \<noteq> EAGAIN \<and> errno \<noteq> EWOULDBLOCK then usock_async len
           else if errno = EINTR then io_return (- EINTR, len)
           else if errno = ECONNRESET \<or> errno = EPIPE then io_return (- ECONNRESET, len)
           else io_bind (errno_assert False) (\<lambda>_. usock_async len))
        else usock_async len))"

text \<open>
  \<^verbatim>\<open>sp_usock_recv\<close>. \<^verbatim>\<open>nbytes > 0 && flags & SP_USOCK_PARTIAL\<close> is the conjunction of the
  signed test and of the bit test; on that path \<^verbatim>\<open>*len\<close> becomes \<^verbatim>\<open>nbytes\<close>.
\<close>

definition sp_usock_recv ::
  "build \<Rightarrow> os \<Rightarrow> 'p sp_usock \<Rightarrow> size_t \<Rightarrow> c_int \<Rightarrow> (c_int \<times> size_t) io" where
  "sp_usock_recv b os self len flags =
     (if len = 0 then io_return (0, len)
      else
        io_bind (sys_recv os (us_s self) len 0) (\<lambda>(nbytes, errno).
        if nbytes = len then io_return (0, len)
        else if 0 <s nbytes \<and> flags AND SP_USOCK_PARTIAL b \<noteq> 0 then io_return (0, nbytes)
        else if nbytes = 0 then io_return (- ECONNRESET, len)
        else if nbytes <s 0 then
          (if errno = EAGAIN \<or> errno = EWOULDBLOCK then usock_async len
           else if errno = EINTR then io_return (- EINTR, len)
           else if errno = ECONNRESET \<or> errno = ECONNREFUSED \<or> errno = ETIMEDOUT
                   \<or> errno = EHOSTUNREACH \<or> errno = ENOTCONN
                then io_return (- ECONNRESET, len)
           else io_bind (errno_assert False) (\<lambda>_. usock_async len))
        else usock_async len))"

text \<open>Operating systems for concrete runs: every call succeeds and \<^verbatim>\<open>socket\<close> hands out
  the handle 3; \<open>os_failing e\<close> differs in that \<^verbatim>\<open>send\<close> and \<^verbatim>\<open>recv\<close> fail with \<^verbatim>\<open>errno\<close>
  \<open>e\<close>; \<open>os_short n\<close> in that they transfer \<open>n\<close> bytes whatever was asked for.\<close>

definition os_fine :: os where
  "os_fine =
     \<lparr> os_socket = (\<lambda>d t p. (3, 0)),
       os_fcntl = (\<lambda>fd cmd v. 0),
       os_setsockopt = (\<lambda>fd lvl opt v. 0),
       os_send = (\<lambda>fd len fl. (len, 0)),
       os_recv = (\<lambda>fd len fl. (len, 0)) \<rparr>"

definition os_failing :: "c_int \<Rightarrow> os" where
  "os_failing e = os_fine \<lparr> os_send := (\<lambda>fd len fl. (- 1, e)), os_recv := (\<lambda>fd len fl. (- 1, e)) \<rparr>"

definition os_short :: "ssize_t \<Rightarrow> os" where
  "os_short n = os_fine \<lparr> os_send := (\<lambda>fd len fl. (n, 0)), os_recv := (\<lambda>fd len fl. (n, 0)) \<rparr>"

text \<open>A socket structure before \<^verbatim>\<open>sp_usock_init\<close> has filled it in, and a connected
  stream socket on handle 3.\<close>

definition usock_blank :: "nat sp_usock" where
  "usock_blank = \<lparr> us_s = 0, us_domain = 0, us_type = 0, us_protocol = 0, us_aio = None \<rparr>"

definition usock_tcp :: "nat sp_usock" where
  "usock_tcp = \<lparr> us_s = 3, us_domain = AF_INET, us_type = SOCK_STREAM, us_protocol = 0,
                 us_aio = None \<rparr>"

text \<open>The event a call of \<^verbatim>\<open>sp_cp_wait\<close> handed to its caller through \<^verbatim>\<open>*op\<close> and
  \<^verbatim>\<open>*arg\<close>, if any.\<close>

definition delivered :: "(fault + c_int \<times> (c_int \<times> 'a) option) \<Rightarrow> (c_int \<times> 'a) option" where
  "delivered r = (case r of Inl e \<Rightarrow> None | Inr (rc, ev) \<Rightarrow> ev)"

text \<open>Concrete data for runs of the queue: memory filled with zeros, and 65 events
  numbered from 0.\<close>

definition mem_zero :: "nat \<Rightarrow> nat sp_cp_item" where
  "mem_zero = (\<lambda>i. \<lparr> item_op = 0, item_arg = 0 \<rparr>)"

definition events_65 :: "(c_int \<times> nat) list" where
  "events_65 = map (\<lambda>i. (of_nat i, i)) [0..<65]"

section \<open>The completion queue is a FIFO queue\<close>

subsection \<open>Cursors stay inside the block\<close>

lemma cp_inv_init: "cp_inv (sp_cp_init mem)"
  by (simp add: cp_inv_def sp_cp_init_def SP_CP_INITIAL_CAPACITY_def)

lemma cp_inv_post: "cp_inv q \<Longrightarrow> cp_inv (sp_cp_post q opc a)"
  unfolding cp_inv_def sp_cp_post_def Let_def
  by (auto simp: mod_Suc)

lemma cp_inv_wait_locked: "cp_inv q \<Longrightarrow> cp_inv (snd (sp_cp_wait_locked q))"
  unfolding cp_inv_def sp_cp_wait_locked_def Let_def
  by (auto simp: mod_Suc)

lemma map_shift_upt: "map (\<lambda>i. f (i - c)) [c..<c + n] = map f [0..<n]"
  by (induction n) auto

lemma map_upd_outside:
  "t \<notin> set xs \<Longrightarrow> map (\<lambda>i. g ((m(t := x)) i)) xs = map (\<lambda>i. g (m i)) xs"
  by (induction xs) auto

lemma map_memcpy_below:
  "\<forall>i \<in> set xs. i < c \<Longrightarrow> map (\<lambda>i. g (memcpy_items m c 0 n i)) xs = map (\<lambda>i. g (m i)) xs"
  by (induction xs) (auto simp: memcpy_items_def)

lemma map_memcpy_copy:
  "map (\<lambda>i. g (memcpy_items m c 0 n i)) [c..<c + n] = map (\<lambda>i. g (m i)) [0..<n]"
proof -
  have "map (\<lambda>i. g (memcpy_items m c 0 n i)) [c..<c + n] = map (\<lambda>i. g (m (i - c))) [c..<c + n]"
    by (rule map_cong) (auto simp: memcpy_items_def)
  also have "\<dots> = map (\<lambda>i. g (m i)) [0..<n]"
    by (rule map_shift_upt [where f = "\<lambda>i. g (m i)"])
  finally show ?thesis .
qed

text \<open>The two outcomes of post, field by field: with and without the doubling step.\<close>

lemma sp_cp_post_grow:
  assumes "Suc (tail q) mod capacity q = head q"
  shows "capacity (sp_cp_post q opc a) = capacity q * 2"
    and "head (sp_cp_post q opc a) = head q"
    and "tail (sp_cp_post q opc a) = head q + capacity q"
    and "items (sp_cp_post q opc a) =
           memcpy_items ((items q)(tail q := \<lparr>item_op = opc, item_arg = a\<rparr>)) (capacity q) 0 (head q)"
  using assms by (auto simp: sp_cp_post_def Let_def)

lemma sp_cp_post_plain:
  assumes "Suc (tail q) mod capacity q \<noteq> head q"
  shows "capacity (sp_cp_post q opc a) = capacity q"
    and "head (sp_cp_post q opc a) = head q"
    and "tail (sp_cp_post q opc a) = Suc (tail q) mod capacity q"
    and "items (sp_cp_post q opc a) = (items q)(tail q := \<lparr>item_op = opc, item_arg = a\<rparr>)"
  using assms by (auto simp: sp_cp_post_def Let_def)

lemma cp_events_post:
  assumes "cp_inv q"
  shows "cp_events (sp_cp_post q opc a) = cp_events q @ [(opc, a)]"
proof -
  from assms have h: "head q < capacity q" and t: "tail q < capacity q"
    by (simp_all add: cp_inv_def)
  let ?x = "\<lparr>item_op = opc, item_arg = a\<rparr>"
  let ?m = "(items q)(tail q := ?x)"
  have ex: "event_of (?m (tail q)) = (opc, a)" by (simp add: event_of_def)
  show ?thesis
  proof (cases "Suc (tail q) mod capacity q = head q")
    case grow: True
    note f = sp_cp_post_grow [OF grow, of opc a]
    have live': "cp_live (sp_cp_post q opc a) = [head q..<capacity q] @ [capacity q..<capacity q + head q]"
      using h upt_add_eq_append [of "head q" "capacity q" "head q"]
      by (simp add: cp_live_def f add.commute)
    have a1: "map (\<lambda>i. event_of (memcpy_items ?m (capacity q) 0 (head q) i)) [head q..<capacity q]
              = map (\<lambda>i. event_of (?m i)) [head q..<capacity q]"
      by (rule map_memcpy_below) simp
    have a2: "map (\<lambda>i. event_of (memcpy_items ?m (capacity q) 0 (head q) i)) [capacity q..<capacity q + head q]
              = map (\<lambda>i. event_of (?m i)) [0..<head q]"
      by (rule map_memcpy_copy)
    have ev': "cp_events (sp_cp_post q opc a)
               = map (\<lambda>i. event_of (?m i)) [head q..<capacity q] @ map (\<lambda>i. event_of (?m i)) [0..<head q]"
      by (simp add: cp_events_def live' f a1 a2)
    show ?thesis
    proof (cases "Suc (tail q) = capacity q")
      case True
      with grow have h0: "head q = 0" by simp
      have "[0..<capacity q] = [0..<tail q] @ [tail q]"
        using True by (metis upt_Suc_append zero_le)
      moreover have "map (\<lambda>i. event_of (?m i)) [0..<tail q] = map (\<lambda>i. event_of (items q i)) [0..<tail q]"
        by (rule map_upd_outside) simp
      moreover have "cp_events q = map (\<lambda>i. event_of (items q i)) [0..<tail q]"
        using h0 by (simp add: cp_events_def cp_live_def)
      ultimately show ?thesis
        using h0 ex by (simp add: ev')
    next
      case False
      with t grow have ht: "head q = Suc (tail q)" by simp
      have "[0..<head q] = [0..<tail q] @ [tail q]"
        using ht by simp
      moreover have "map (\<lambda>i. event_of (?m i)) [0..<tail q] = map (\<lambda>i. event_of (items q i)) [0..<tail q]"
        by (rule map_upd_outside) simp
      moreover have "map (\<lambda>i. event_of (?m i)) [head q..<capacity q] = map (\<lambda>i. event_of (items q i)) [head q..<capacity q]"
        by (rule map_upd_outside) (simp add: ht)
      moreover have "cp_events q = map (\<lambda>i. event_of (items q i)) [head q..<capacity q]
                        @ map (\<lambda>i. event_of (items q i)) [0..<tail q]"
        using ht by (simp add: cp_events_def cp_live_def)
      ultimately show ?thesis
        using ex by (simp add: ev')
    qed
  next
    case plain: False
    note f = sp_cp_post_plain [OF plain, of opc a]
    have evp: "cp_events (sp_cp_post q opc a) = map (\<lambda>i. event_of (?m i)) (cp_live (sp_cp_post q opc a))"
      by (simp add: cp_events_def f(4) del: fun_upd_apply)
    show ?thesis
    proof (cases "Suc (tail q) = capacity q")
      case True
      with plain have h0: "0 < head q" by simp
      from True have t': "tail (sp_cp_post q opc a) = 0" by (simp add: f)
      have hle: "head q \<le> tail q" using h True by simp
      have "[head q..<Suc (tail q)] = [head q..<tail q] @ [tail q]"
        using hle by simp
      then have l': "cp_live (sp_cp_post q opc a) = [head q..<tail q] @ [tail q]"
        using h0 True by (simp add: cp_live_def f(1,2) t')
      have lq: "cp_live q = [head q..<tail q]"
        using hle by (simp add: cp_live_def)
      have evq: "cp_events q = map (\<lambda>i. event_of (items q i)) (cp_live q)"
        by (simp add: cp_events_def)
      have "map (\<lambda>i. event_of (?m i)) [head q..<tail q] = map (\<lambda>i. event_of (items q i)) [head q..<tail q]"
        by (rule map_upd_outside) simp
      then show ?thesis
        using ex by (simp add: evp l' evq lq del: fun_upd_apply)
    next
      case False
      with t have t': "tail (sp_cp_post q opc a) = Suc (tail q)" by (simp add: f)
      from plain False t have ne: "Suc (tail q) \<noteq> head q" by simp
      show ?thesis
      proof (cases "head q \<le> tail q")
        case True
        have l': "cp_live (sp_cp_post q opc a) = [head q..<tail q] @ [tail q]"
          using True by (simp add: cp_live_def f(1,2) t')
        have lq: "cp_live q = [head q..<tail q]"
          using True by (simp add: cp_live_def)
        have evq: "cp_events q = map (\<lambda>i. event_of (items q i)) (cp_live q)"
          by (simp add: cp_events_def)
        have "map (\<lambda>i. event_of (?m i)) [head q..<tail q] = map (\<lambda>i. event_of (items q i)) [head q..<tail q]"
          by (rule map_upd_outside) simp
        then show ?thesis
          using ex by (simp add: evp l' evq lq del: fun_upd_apply)
      next
        case False
        with ne have lt: "Suc (tail q) < head q" by simp
        have l': "cp_live (sp_cp_post q opc a) = [head q..<capacity q] @ [0..<tail q] @ [tail q]"
          using lt by (simp add: cp_live_def f(1,2) t')
        have lq: "cp_live q = [head q..<capacity q] @ [0..<tail q]"
          using lt by (simp add: cp_live_def)
        have evq: "cp_events q = map (\<lambda>i. event_of (items q i)) (cp_live q)"
          by (simp add: cp_events_def)
        have "map (\<lambda>i. event_of (?m i)) [0..<tail q] = map (\<lambda>i. event_of (items q i)) [0..<tail q]"
          by (rule map_upd_outside) simp
        moreover have "map (\<lambda>i. event_of (?m i)) [head q..<capacity q] = map (\<lambda>i. event_of (items q i)) [head q..<capacity q]"
          by (rule map_upd_outside) (use lt in simp)
        ultimately show ?thesis
          using ex by (simp add: evp l' evq lq del: fun_upd_apply)
      qed
    qed
  qed
qed

subsection \<open>Popping the head event\<close>

lemma cp_inv_bounds: "cp_reachable q \<Longrightarrow> cp_inv q"
  by (induction rule: cp_reachable.induct) (simp_all add: cp_inv_init cp_inv_post cp_inv_wait_locked)

lemma cp_events_Nil_iff: "cp_inv q \<Longrightarrow> cp_events q = [] \<longleftrightarrow> head q = tail q"
  by (auto simp: cp_inv_def cp_events_def cp_live_def)

lemma length_cp_events: "cp_inv q \<Longrightarrow> length (cp_events q) < capacity q"
  by (auto simp: cp_inv_def cp_events_def cp_live_def)

lemma sp_cp_wait_locked_empty: "head q = tail q \<Longrightarrow> sp_cp_wait_locked q = (None, q)"
  by (simp add: sp_cp_wait_locked_def)

lemma sp_cp_wait_locked_fields:
  assumes "head q \<noteq> tail q"
  shows "fst (sp_cp_wait_locked q) = Some (event_of (items q (head q)))"
    and "head (snd (sp_cp_wait_locked q)) = Suc (head q) mod capacity q"
    and "tail (snd (sp_cp_wait_locked q)) = tail q"
    and "capacity (snd (sp_cp_wait_locked q)) = capacity q"
    and "items (snd (sp_cp_wait_locked q)) = items q"
  using assms by (simp_all add: sp_cp_wait_locked_def Let_def event_of_def)

lemma cp_events_wait_locked:
  assumes "cp_inv q" and "cp_events q = e # es"
  shows "fst (sp_cp_wait_locked q) = Some e \<and> cp_events (snd (sp_cp_wait_locked q)) = es"
proof -
  from assms(1) have h: "head q < capacity q" and t: "tail q < capacity q"
    by (simp_all add: cp_inv_def)
  from assms have ne: "head q \<noteq> tail q"
    using cp_events_Nil_iff [of q] by auto
  note f = sp_cp_wait_locked_fields [OF ne]
  show ?thesis
  proof (cases "head q < tail q")
    case True
    then have "cp_live q = head q # [Suc (head q)..<tail q]"
      by (simp add: cp_live_def upt_conv_Cons)
    moreover from True t have "Suc (head q) mod capacity q = Suc (head q)" by simp
    ultimately show ?thesis
      using assms(2) True by (simp add: cp_events_def f cp_live_def)
  next
    case False
    with ne have lt: "tail q < head q" by simp
    then have lq: "cp_live q = head q # [Suc (head q)..<capacity q] @ [0..<tail q]"
      using h by (simp add: cp_live_def upt_conv_Cons)
    show ?thesis
    proof (cases "Suc (head q) = capacity q")
      case True
      then show ?thesis
        using assms(2) lt lq by (simp add: cp_events_def f cp_live_def)
    next
      case False
      with h have "Suc (head q) mod capacity q = Suc (head q)" by simp
      then show ?thesis
        using assms(2) lt lq by (auto simp add: cp_events_def f cp_live_def)
    qed
  qed
qed

lemma cp_inv_posts: "cp_inv q \<Longrightarrow> cp_inv (sp_cp_posts q ps)"
  by (induction ps arbitrary: q) (simp_all add: cp_inv_post)

lemma cp_events_posts: "cp_inv q \<Longrightarrow> cp_events (sp_cp_posts q ps) = cp_events q @ ps"
  by (induction ps arbitrary: q) (simp_all add: cp_inv_post cp_events_post)

lemma sp_cp_wait_nonempty:
  assumes "cp_inv q" and "cp_events q = e # es"
  shows "sp_cp_wait poller q timeout = (Inr (0, Some e), snd (sp_cp_wait_locked q))"
  using cp_events_wait_locked [OF assms]
  by (cases "sp_cp_wait_locked q") (simp add: sp_cp_wait_def)

lemma sp_cp_wait_empty:
  assumes "head q = tail q"
  shows "snd (sp_cp_wait poller q timeout) = q"
    and "\<forall>e. fst (sp_cp_wait poller q timeout) \<noteq> Inr (0, Some e)"
    and "\<forall>rc ev. fst (sp_cp_wait poller q timeout) = Inr (rc, ev) \<longrightarrow> ev = None"
  using assms by (auto simp: sp_cp_wait_def sp_cp_wait_locked_empty Let_def)

lemma sp_cp_waits_drain:
  assumes "cp_inv q" and "cp_events q = es @ rest" and "n = length es"
  shows "fst (sp_cp_waits poller timeout n q) = map (\<lambda>e. Inr (0, Some e)) es
         \<and> cp_inv (snd (sp_cp_waits poller timeout n q))
         \<and> cp_events (snd (sp_cp_waits poller timeout n q)) = rest"
  using assms
proof (induction es arbitrary: q n)
  case Nil
  then show ?case by simp
next
  case (Cons e es)
  from Cons.prems obtain m where n: "n = Suc m" and m: "m = length es" by simp
  let ?q' = "snd (sp_cp_wait_locked q)"
  from Cons.prems have ev: "cp_events q = e # (es @ rest)" by simp
  have w: "sp_cp_wait poller q timeout = (Inr (0, Some e), ?q')"
    by (rule sp_cp_wait_nonempty [OF Cons.prems(1) ev])
  have inv': "cp_inv ?q'" by (rule cp_inv_wait_locked [OF Cons.prems(1)])
  have ev': "cp_events ?q' = es @ rest"
    using cp_events_wait_locked [OF Cons.prems(1) ev] by simp
  note ih = Cons.IH [OF inv' ev' m]
  show ?case
    using ih by (cases "sp_cp_waits poller timeout m ?q'") (simp add: n w)
qed

lemma cp_events_init: "cp_events (sp_cp_init mem) = []"
  by (simp add: cp_events_def cp_live_def sp_cp_init_def)

lemma sp_cp_wait_delivers_none:
  "head q = tail q \<Longrightarrow> delivered (fst (sp_cp_wait poller q timeout)) = None"
  by (simp add: sp_cp_wait_def sp_cp_wait_locked_empty Let_def delivered_def)

subsection \<open>First in, first out\<close>

text \<open>
  Claim C4. Take the queue in any reachable state (a fresh queue stores nothing) and
  post any list of events to it. Then as many successive calls of \<^verbatim>\<open>sp_cp_wait\<close> as
  there are events return, each with return code 0, the events that were stored before
  followed by the posted (operation code, argument) pairs in exactly the order in which
  they were posted; after that the queue stores nothing, and one more wait delivers no
  event, whatever the poller replies: each event is consumed exactly once. The poller
  is never consulted while events are stored.
\<close>

theorem sp_cp_fifo:
  assumes "cp_reachable q"
  shows "fst (sp_cp_waits poller timeout (length (cp_events q) + length ps) (sp_cp_posts q ps))
           = map (\<lambda>e. Inr (0, Some e)) (cp_events q @ ps)
       \<and> cp_events (snd (sp_cp_waits poller timeout (length (cp_events q) + length ps)
                            (sp_cp_posts q ps))) = []
       \<and> delivered (fst (sp_cp_wait poller'
            (snd (sp_cp_waits poller timeout (length (cp_events q) + length ps) (sp_cp_posts q ps)))
            timeout')) = None"
proof -
  let ?q = "sp_cp_posts q ps"
  let ?r = "sp_cp_waits poller timeout (length (cp_events q) + length ps) ?q"
  have inv0: "cp_inv q" by (rule cp_inv_bounds [OF assms])
  have inv: "cp_inv ?q" by (rule cp_inv_posts [OF inv0])
  have ev: "cp_events ?q = (cp_events q @ ps) @ []"
    by (simp add: cp_events_posts [OF inv0])
  have d: "fst ?r = map (\<lambda>e. Inr (0, Some e)) (cp_events q @ ps)
           \<and> cp_inv (snd ?r) \<and> cp_events (snd ?r) = []"
    by (rule sp_cp_waits_drain [OF inv ev]) simp
  then have "head (snd ?r) = tail (snd ?r)"
    using cp_events_Nil_iff [of "snd ?r"] by simp
  then have "delivered (fst (sp_cp_wait poller' (snd ?r) timeout')) = None"
    by (rule sp_cp_wait_delivers_none)
  with d show ?thesis by simp
qed

theorem sp_cp_fifo_witness:
  "cp_reachable (sp_cp_init mem_zero)
   \<and> fst (sp_cp_waits (\<lambda>t. \<lparr> poll_rc = 0, poll_is_evhndl = True \<rparr>) 0 3
            (sp_cp_posts (sp_cp_init mem_zero) [(7, 5), (8, 6), (9, 7)]))
       = [Inr (0, Some (7, 5)), Inr (0, Some (8, 6)), Inr (0, Some (9, 7))]"
proof -
  have r: "cp_reachable (sp_cp_init mem_zero)" by (rule reach_init)
  have e: "cp_events (sp_cp_init mem_zero) = []" by (rule cp_events_init)
  show ?thesis
    using r sp_cp_fifo [OF r, of "\<lambda>t. \<lparr> poll_rc = 0, poll_is_evhndl = True \<rparr>" 0
        "[(7, 5), (8, 6), (9, 7)]"]
    by (simp add: e numeral_3_eq_3 del: sp_cp_posts.simps sp_cp_waits.simps)
qed

text \<open>
  Claim C3. Take any reachable state of the queue, with its cursors anywhere in the
  block, and post so many events that the stored ones reach the capacity (65 posts into
  a fresh queue of capacity 64, for one). Then the capacity has grown, the queue stores
  the old events followed by the new ones, and successive waits return all of them in
  exactly that order: the doubling step copies the wrapped cells below \<open>tail\<close> behind the
  old block, so that no event is lost or reordered.
\<close>

theorem sp_cp_growth_keeps_order:
  assumes "cp_reachable q" and "capacity q \<le> length (cp_events q) + length ps"
  shows "capacity q < capacity (sp_cp_posts q ps)
       \<and> cp_events (sp_cp_posts q ps) = cp_events q @ ps
       \<and> fst (sp_cp_waits poller timeout (length (cp_events q) + length ps) (sp_cp_posts q ps))
           = map (\<lambda>e. Inr (0, Some e)) (cp_events q @ ps)"
proof -
  let ?q = "sp_cp_posts q ps"
  have inv0: "cp_inv q" by (rule cp_inv_bounds [OF assms(1)])
  have inv: "cp_inv ?q" by (rule cp_inv_posts [OF inv0])
  have ev: "cp_events ?q = cp_events q @ ps" by (rule cp_events_posts [OF inv0])
  have "length (cp_events ?q) < capacity ?q" by (rule length_cp_events [OF inv])
  with ev assms(2) have grow: "capacity q < capacity ?q" by simp
  have ev': "cp_events ?q = (cp_events q @ ps) @ []" using ev by simp
  have "fst (sp_cp_waits poller timeout (length (cp_events q) + length ps) ?q)
          = map (\<lambda>e. Inr (0, Some e)) (cp_events q @ ps)"
    using sp_cp_waits_drain [OF inv ev', of "length (cp_events q) + length ps" poller timeout]
    by simp
  with grow ev show ?thesis by simp
qed

theorem sp_cp_growth_keeps_order_witness:
  "cp_reachable (sp_cp_init mem_zero)
   \<and> capacity (sp_cp_init mem_zero) \<le> length (cp_events (sp_cp_init mem_zero)) + length events_65
   \<and> capacity (sp_cp_init mem_zero) < capacity (sp_cp_posts (sp_cp_init mem_zero) events_65)
   \<and> fst (sp_cp_waits (\<lambda>t. \<lparr> poll_rc = 0, poll_is_evhndl = True \<rparr>) 0 65 (sp_cp_posts (sp_cp_init mem_zero) events_65))
       = map (\<lambda>e. Inr (0, Some e)) events_65"
proof -
  have r: "cp_reachable (sp_cp_init mem_zero)" by (rule reach_init)
  have c: "capacity (sp_cp_init mem_zero) \<le> length (cp_events (sp_cp_init mem_zero)) + length events_65"
    by (simp add: sp_cp_init_def SP_CP_INITIAL_CAPACITY_def events_65_def)
  have e: "cp_events (sp_cp_init mem_zero) = []"
    by (simp add: cp_events_def cp_live_def sp_cp_init_def)
  have l: "length events_65 = 65" by (simp add: events_65_def)
  show ?thesis
    using r c sp_cp_growth_keeps_order [OF r c, of "\<lambda>t. \<lparr> poll_rc = 0, poll_is_evhndl = True \<rparr>" 0]
    by (simp add: e l)
qed

section \<open>The wakeup signal\<close>

lemma cp_signal_inv: "cp_reachable q \<Longrightarrow> eventfd q \<longleftrightarrow> head q \<noteq> tail q"
proof (induction rule: cp_reachable.induct)
  case (reach_init mem)
  show ?case by (simp add: sp_cp_init_def sp_eventfd_init_def)
next
  case (reach_post q opc a)
  from reach_post.hyps have "cp_inv q" by (rule cp_inv_bounds)
  with reach_post.IH show ?case
    unfolding cp_inv_def sp_cp_post_def Let_def sp_eventfd_signal_def
    by (auto simp: mod_Suc)
next
  case (reach_wait q)
  from reach_wait.hyps have "cp_inv q" by (rule cp_inv_bounds)
  with reach_wait.IH show ?case
    unfolding cp_inv_def sp_cp_wait_locked_def Let_def sp_eventfd_unsignal_def
    by (auto simp: mod_Suc)
qed

lemma cp_reachable_posts: "cp_reachable q \<Longrightarrow> cp_reachable (sp_cp_posts q ps)"
  by (induction ps arbitrary: q) (simp_all add: reach_post)

lemma cp_reachable_wait: "cp_reachable q \<Longrightarrow> cp_reachable (snd (sp_cp_wait poller q timeout))"
proof -
  assume r: "cp_reachable q"
  show ?thesis
  proof (cases "head q = tail q")
    case True
    with r show ?thesis by (simp add: sp_cp_wait_empty(1))
  next
    case False
    then have "snd (sp_cp_wait poller q timeout) = snd (sp_cp_wait_locked q)"
      by (simp add: sp_cp_wait_def sp_cp_wait_locked_def Let_def)
    with r show ?thesis by (simp add: reach_wait)
  qed
qed

text \<open>
  Claim C5. In every state reachable by any interleaving of posts and waits the wakeup
  signal is raised if and only if the queue is not empty (\<open>head \<noteq> tail\<close>). A post
  signals exactly when the queue was empty before it, which is exactly when the signal
  goes from lowered to raised, and leaves the queue non-empty; the critical section of a
  wait unsignals exactly when it popped an event and \<open>head\<close> has reached \<open>tail\<close>, which is
  exactly when the signal goes from raised to lowered. The equivalence holds again
  after the post and after the whole of \<^verbatim>\<open>sp_cp_wait\<close>.
\<close>

theorem sp_cp_signal_iff_nonempty:
  assumes "cp_reachable q"
  shows "(eventfd q \<longleftrightarrow> head q \<noteq> tail q)
       \<and> eventfd (sp_cp_post q opc a)
           = (if head q = tail q then sp_eventfd_signal (eventfd q) else eventfd q)
       \<and> ((\<not> eventfd q \<and> eventfd (sp_cp_post q opc a)) \<longleftrightarrow> head q = tail q)
       \<and> head (sp_cp_post q opc a) \<noteq> tail (sp_cp_post q opc a)
       \<and> eventfd (snd (sp_cp_wait_locked q))
           = (if head q \<noteq> tail q \<and> head (snd (sp_cp_wait_locked q)) = tail (snd (sp_cp_wait_locked q))
              then sp_eventfd_unsignal (eventfd q) else eventfd q)
       \<and> ((eventfd q \<and> \<not> eventfd (snd (sp_cp_wait_locked q)))
            \<longleftrightarrow> (head q \<noteq> tail q \<and> head (snd (sp_cp_wait_locked q)) = tail (snd (sp_cp_wait_locked q))))
       \<and> (eventfd (sp_cp_post q opc a)
            \<longleftrightarrow> head (sp_cp_post q opc a) \<noteq> tail (sp_cp_post q opc a))
       \<and> (eventfd (snd (sp_cp_wait poller q timeout))
            \<longleftrightarrow> head (snd (sp_cp_wait poller q timeout)) \<noteq> tail (snd (sp_cp_wait poller q timeout)))"
proof -
  have s: "eventfd q \<longleftrightarrow> head q \<noteq> tail q" by (rule cp_signal_inv [OF assms])
  have s1: "eventfd (sp_cp_post q opc a) \<longleftrightarrow> head (sp_cp_post q opc a) \<noteq> tail (sp_cp_post q opc a)"
    by (rule cp_signal_inv [OF reach_post [OF assms]])
  have s2: "eventfd (snd (sp_cp_wait_locked q))
              \<longleftrightarrow> head (snd (sp_cp_wait_locked q)) \<noteq> tail (snd (sp_cp_wait_locked q))"
    by (rule cp_signal_inv [OF reach_wait [OF assms]])
  have s3: "eventfd (snd (sp_cp_wait poller q timeout))
              \<longleftrightarrow> head (snd (sp_cp_wait poller q timeout)) \<noteq> tail (snd (sp_cp_wait poller q timeout))"
    by (rule cp_signal_inv [OF cp_reachable_wait [OF assms]])
  from assms have "cp_inv q" by (rule cp_inv_bounds)
  then have ne: "head (sp_cp_post q opc a) \<noteq> tail (sp_cp_post q opc a)"
    unfolding cp_inv_def sp_cp_post_def Let_def by (auto simp: mod_Suc)
  have p: "eventfd (sp_cp_post q opc a)
           = (if head q = tail q then sp_eventfd_signal (eventfd q) else eventfd q)"
    by (auto simp: sp_cp_post_def Let_def)
  have w: "eventfd (snd (sp_cp_wait_locked q))
           = (if head q \<noteq> tail q \<and> head (snd (sp_cp_wait_locked q)) = tail (snd (sp_cp_wait_locked q))
              then sp_eventfd_unsignal (eventfd q) else eventfd q)"
    by (auto simp: sp_cp_wait_locked_def Let_def)
  have a: "(\<not> eventfd q \<and> eventfd (sp_cp_post q opc a)) \<longleftrightarrow> head q = tail q"
    using s s1 ne by auto
  have b: "(eventfd q \<and> \<not> eventfd (snd (sp_cp_wait_locked q)))
            \<longleftrightarrow> (head q \<noteq> tail q \<and> head (snd (sp_cp_wait_locked q)) = tail (snd (sp_cp_wait_locked q)))"
    using s s2 by (auto simp: sp_cp_wait_locked_empty)
  show ?thesis
    using s p a ne w b s1 s3 by blast
qed

theorem sp_cp_signal_iff_nonempty_witness:
  "cp_reachable (sp_cp_post (sp_cp_init mem_zero) 7 5)
   \<and> eventfd (sp_cp_post (sp_cp_init mem_zero) 7 5)
   \<and> head (sp_cp_post (sp_cp_init mem_zero) 7 5) \<noteq> tail (sp_cp_post (sp_cp_init mem_zero) 7 5)
   \<and> \<not> eventfd (snd (sp_cp_wait_locked (sp_cp_post (sp_cp_init mem_zero) 7 5)))
   \<and> head (snd (sp_cp_wait_locked (sp_cp_post (sp_cp_init mem_zero) 7 5)))
       = tail (snd (sp_cp_wait_locked (sp_cp_post (sp_cp_init mem_zero) 7 5)))"
proof -
  have r: "cp_reachable (sp_cp_post (sp_cp_init mem_zero) 7 5)"
    by (rule reach_post [OF reach_init])
  have h: "head (sp_cp_post (sp_cp_init mem_zero) 7 5) = 0"
    and t: "tail (sp_cp_post (sp_cp_init mem_zero) 7 5) = 1"
    and c: "capacity (sp_cp_post (sp_cp_init mem_zero) 7 5) = 64"
    by (simp_all add: sp_cp_post_def sp_cp_init_def SP_CP_INITIAL_CAPACITY_def Let_def)
  have w: "head (snd (sp_cp_wait_locked (sp_cp_post (sp_cp_init mem_zero) 7 5))) = 1"
    and w': "tail (snd (sp_cp_wait_locked (sp_cp_post (sp_cp_init mem_zero) 7 5))) = 1"
    by (simp_all add: sp_cp_wait_locked_def Let_def h t c)
  show ?thesis
    using r sp_cp_signal_iff_nonempty [OF r, of 0 0]
    by (simp add: h t w w' sp_eventfd_unsignal_def)
qed

section \<open>What post and wait leave alone\<close>

lemma sp_cp_wait_frame:
  "tail (snd (sp_cp_wait poller q timeout)) = tail q
   \<and> capacity (snd (sp_cp_wait poller q timeout)) = capacity q
   \<and> items (snd (sp_cp_wait poller q timeout)) = items q"
  by (simp add: sp_cp_wait_def sp_cp_wait_locked_def Let_def)

lemma sp_cp_post_items_below:
  "i < capacity q \<Longrightarrow> i \<noteq> tail q \<Longrightarrow> items (sp_cp_post q opc a) i = items q i"
  by (simp add: sp_cp_post_def Let_def memcpy_items_def)

lemma cp_live_below: "cp_inv q \<Longrightarrow> i \<in> set (cp_live q) \<Longrightarrow> i < capacity q \<and> i \<noteq> tail q"
  by (auto simp: cp_inv_def cp_live_def split: if_splits)

text \<open>
  Claim C10. In a reachable state, \<^verbatim>\<open>sp_cp_post\<close> leaves \<open>head\<close> as it is and changes no
  cell that stores an event; inside the old block it writes the cell at \<open>tail\<close> only (the
  copy of the doubling step lands behind the old block), and the capacity stays or
  doubles. \<^verbatim>\<open>sp_cp_wait\<close> leaves \<open>tail\<close>, the capacity and all of \<open>items\<close> as they are.
\<close>

theorem sp_cp_frame:
  assumes "cp_reachable q"
  shows "head (sp_cp_post q opc a) = head q
       \<and> (\<forall>i \<in> set (cp_live q). items (sp_cp_post q opc a) i = items q i)
       \<and> (\<forall>i. i < capacity q \<and> i \<noteq> tail q \<longrightarrow> items (sp_cp_post q opc a) i = items q i)
       \<and> (capacity (sp_cp_post q opc a) = capacity q \<or> capacity (sp_cp_post q opc a) = capacity q * 2)
       \<and> tail (snd (sp_cp_wait poller q timeout)) = tail q
       \<and> capacity (snd (sp_cp_wait poller q timeout)) = capacity q
       \<and> items (snd (sp_cp_wait poller q timeout)) = items q"
proof -
  from assms have inv: "cp_inv q" by (rule cp_inv_bounds)
  have 1: "head (sp_cp_post q opc a) = head q"
    by (simp add: sp_cp_post_def Let_def)
  have 2: "\<forall>i \<in> set (cp_live q). items (sp_cp_post q opc a) i = items q i"
    using cp_live_below [OF inv] by (simp add: sp_cp_post_items_below)
  have 3: "\<forall>i. i < capacity q \<and> i \<noteq> tail q \<longrightarrow> items (sp_cp_post q opc a) i = items q i"
    by (simp add: sp_cp_post_items_below)
  have 4: "capacity (sp_cp_post q opc a) = capacity q \<or> capacity (sp_cp_post q opc a) = capacity q * 2"
    by (simp add: sp_cp_post_def Let_def)
  show ?thesis
    using 1 2 3 4 sp_cp_wait_frame [of poller q timeout] by simp
qed

theorem sp_cp_frame_witness:
  "cp_reachable (sp_cp_post (sp_cp_init mem_zero) 7 5)
   \<and> head (sp_cp_post (sp_cp_post (sp_cp_init mem_zero) 7 5) 8 6) = 0
   \<and> items (sp_cp_post (sp_cp_post (sp_cp_init mem_zero) 7 5) 8 6) 0 = \<lparr> item_op = 7, item_arg = 5 \<rparr>
   \<and> tail (snd (sp_cp_wait (\<lambda>t. \<lparr> poll_rc = 0, poll_is_evhndl = True \<rparr>)
                  (sp_cp_post (sp_cp_init mem_zero) 7 5) 0)) = 1"
proof -
  let ?q = "sp_cp_post (sp_cp_init mem_zero) 7 5"
  have r: "cp_reachable ?q"
    by (rule reach_post [OF reach_init])
  have h: "head ?q = 0" and t: "tail ?q = 1" and c: "capacity ?q = 64"
    and i: "items ?q 0 = \<lparr> item_op = 7, item_arg = 5 \<rparr>"
    by (simp_all add: sp_cp_post_def sp_cp_init_def SP_CP_INITIAL_CAPACITY_def Let_def)
  have l: "cp_live ?q = [0]"
    by (simp add: cp_live_def h t)
  show ?thesis
    using r sp_cp_frame [OF r, of 8 6 "\<lambda>t. \<lparr> poll_rc = 0, poll_is_evhndl = True \<rparr>" 0]
    by (simp add: h t c i l)
qed

section \<open>Sending and receiving\<close>

lemmas io_defs = io_return_def io_bind_def sp_assert_def errno_assert_def usock_async_def
  sys_send_def sys_recv_def sys_socket_def sys_fcntl_def sys_setsockopt_def

lemmas errno_defs = EINTR_def EAGAIN_def EWOULDBLOCK_def EPIPE_def ECONNRESET_def ENOTCONN_def
  ETIMEDOUT_def ECONNREFUSED_def EHOSTUNREACH_def EINPROGRESS_def

text \<open>
  Claim C7. With a requested length of 0, \<^verbatim>\<open>sp_usock_send\<close> and \<^verbatim>\<open>sp_usock_recv\<close> return 0
  at once, \<^verbatim>\<open>*len\<close> stays 0, and the log of platform calls is the one before the call: no
  \<^verbatim>\<open>send\<close> or \<^verbatim>\<open>recv\<close> is made.
\<close>

theorem sp_usock_zero_length:
  "sp_usock_send b os self 0 flags log = (Inr (0, 0), log)
   \<and> sp_usock_recv b os self 0 flags log = (Inr (0, 0), log)"
  by (simp add: sp_usock_send_def sp_usock_recv_def io_return_def)

text \<open>
  Claim C1 says that a send whose platform call fails with an error other than
  would-block returns a translated error code, \<^verbatim>\<open>-ECONNRESET\<close> for \<^verbatim>\<open>ECONNRESET\<close> and
  \<^verbatim>\<open>EPIPE\<close>. The code does otherwise: its first test under \<^verbatim>\<open>nbytes < 0\<close> is
  \<^verbatim>\<open>errno != EAGAIN && errno != EWOULDBLOCK\<close>, the negation of the test at the same place
  of \<^verbatim>\<open>sp_usock_recv\<close>, and it jumps to \<^verbatim>\<open>async:\<close>, where \<^verbatim>\<open>sp_assert (0)\<close> fails. Sending
  one byte on a connection that the peer has reset, or on a broken pipe, ends in the
  fatal assertion; the branch that returns \<^verbatim>\<open>-ECONNRESET\<close> is never reached for these
  errors.
\<close>

theorem sp_usock_send_reset_asserts:
  "os_send (os_failing ECONNRESET) 3 1 16384 = (- 1, ECONNRESET)
   \<and> sp_usock_send linux_build (os_failing ECONNRESET) usock_tcp 1 0 []
       = (Inl AssertionFailed, [Sys_send 3 1 16384])
   \<and> os_send (os_failing EPIPE) 3 1 16384 = (- 1, EPIPE)
   \<and> sp_usock_send linux_build (os_failing EPIPE) usock_tcp 1 0 []
       = (Inl AssertionFailed, [Sys_send 3 1 16384])"
  by (simp add: sp_usock_send_def linux_build_def os_failing_def os_fine_def usock_tcp_def
      io_defs errno_defs word_sless_alt)

text \<open>More generally, every failed platform send ends in a fatal assertion, whatever
  \<^verbatim>\<open>errno\<close> is (would-block falls through to \<^verbatim>\<open>errno_assert (0)\<close>).\<close>

lemma sp_usock_send_error_asserts:
  assumes "len \<noteq> 0" and "os_send os (us_s self) len (case MSG_NOSIGNAL b of Some f \<Rightarrow> f | None \<Rightarrow> 0) = (nbytes, errno)"
    and "nbytes <s 0" and "nbytes \<noteq> len"
  shows "fst (sp_usock_send b os self len flags log) = Inl AssertionFailed"
  using assms
  by (auto simp add: sp_usock_send_def io_defs errno_defs Let_def)

text \<open>
  Claim C9. When \<^verbatim>\<open>sp_usock_recv\<close> is called without the \<^verbatim>\<open>SP_USOCK_PARTIAL\<close> bit in
  \<^verbatim>\<open>flags\<close> and the platform read returns a positive count below the requested length,
  the call ends in the fatal assertion at \<^verbatim>\<open>async:\<close>; it returns neither success nor an
  error code.
\<close>

theorem sp_usock_recv_short_asserts:
  assumes "flags AND SP_USOCK_PARTIAL b = 0"
    and "os_recv os (us_s self) len 0 = (nbytes, errno)"
    and "0 <s nbytes" and "nbytes < len"
  shows "fst (sp_usock_recv b os self len flags log) = Inl AssertionFailed"
proof -
  from assms(4) have "len \<noteq> 0" by (auto simp: word_less_def)
  moreover from assms(4) have "nbytes \<noteq> len" by auto
  moreover from assms(3) have "nbytes \<noteq> 0" by auto
  moreover from assms(3) have "\<not> nbytes <s 0" by (simp add: word_sless_alt)
  ultimately show ?thesis
    using assms(1,2,3) by (simp add: sp_usock_recv_def io_defs)
qed

theorem sp_usock_recv_short_asserts_witness:
  "(0 :: c_int) AND SP_USOCK_PARTIAL linux_build = 0
   \<and> os_recv (os_short 3) (us_s usock_tcp) 10 0 = (3, 0)
   \<and> (0 :: ssize_t) <s 3 \<and> (3 :: size_t) < 10
   \<and> fst (sp_usock_recv linux_build (os_short 3) usock_tcp 10 0 []) = Inl AssertionFailed"
proof -
  have a: "(0 :: c_int) AND SP_USOCK_PARTIAL linux_build = 0" by simp
  have b: "os_recv (os_short 3) (us_s usock_tcp) 10 0 = (3, 0)"
    by (simp add: os_short_def os_fine_def)
  have c: "(0 :: ssize_t) <s 3" by (simp add: word_sless_alt)
  have d: "(3 :: size_t) < 10" by simp
  show ?thesis
    using a b c d sp_usock_recv_short_asserts [OF a b c d, of "[]"] by simp
qed

text \<open>
  Claim C6. A requested length is the size of the caller's buffer, so a positive one
  lies between 1 and \<^verbatim>\<open>SSIZE_MAX\<close>: it is positive when read as \<^verbatim>\<open>ssize_t\<close> (no object is
  larger, and POSIX leaves a read of more than \<^verbatim>\<open>SSIZE_MAX\<close> bytes to the implementation).
  For every such length: if the platform read returns zero bytes, \<^verbatim>\<open>sp_usock_recv\<close>
  returns \<^verbatim>\<open>-ECONNRESET\<close>; and if the platform read fails, with any negative return value,
  and \<^verbatim>\<open>errno\<close> is \<^verbatim>\<open>ECONNRESET\<close>, \<^verbatim>\<open>ECONNREFUSED\<close>, \<^verbatim>\<open>ETIMEDOUT\<close>, \<^verbatim>\<open>EHOSTUNREACH\<close> or
  \<^verbatim>\<open>ENOTCONN\<close>, it returns \<^verbatim>\<open>-ECONNRESET\<close> as well. In both cases \<^verbatim>\<open>*len\<close> is unchanged
  and the one platform call made is the \<^verbatim>\<open>recv\<close>.
\<close>

theorem sp_usock_recv_connection_reset:
  assumes "0 <s len"
    and "os_recv os (us_s self) len 0 = (nbytes, errno)"
    and "nbytes = 0
         \<or> (nbytes <s 0
            \<and> errno \<in> {ECONNRESET, ECONNREFUSED, ETIMEDOUT, EHOSTUNREACH, ENOTCONN})"
  shows "sp_usock_recv b os self len flags log
           = (Inr (- ECONNRESET, len), log @ [Sys_recv (us_s self) len 0])"
proof -
  from assms(1) have l0: "len \<noteq> 0" by (auto simp: word_sless_alt)
  from assms(3) show ?thesis
  proof
    assume "nbytes = 0"
    with l0 assms(2) show ?thesis
      by (auto simp add: sp_usock_recv_def io_defs)
  next
    assume a: "nbytes <s 0
         \<and> errno \<in> {ECONNRESET, ECONNREFUSED, ETIMEDOUT, EHOSTUNREACH, ENOTCONN}"
    from a assms(1) have ne: "nbytes \<noteq> len" by (auto simp: word_sless_alt)
    from a have n0: "nbytes \<noteq> 0" by (auto simp: word_sless_alt)
    from a have np: "\<not> 0 <s nbytes" by (auto simp: word_sless_alt)
    from a have e: "errno \<noteq> EAGAIN" "errno \<noteq> EWOULDBLOCK" "errno \<noteq> EINTR"
      by (auto simp: errno_defs)
    from a have r: "errno = ECONNRESET \<or> errno = ECONNREFUSED \<or> errno = ETIMEDOUT
                     \<or> errno = EHOSTUNREACH \<or> errno = ENOTCONN" by auto
    from a have neg: "nbytes <s 0" by simp
    show ?thesis
      using l0 assms(2) ne n0 np neg e r by (simp add: sp_usock_recv_def io_defs)
  qed
qed

theorem sp_usock_recv_connection_reset_witness:
  "(0 :: ssize_t) <s 10
   \<and> os_recv (os_short 0) (us_s usock_tcp) 10 0 = (0, 0)
   \<and> sp_usock_recv linux_build (os_short 0) usock_tcp 10 0 []
       = (Inr (- ECONNRESET, 10), [Sys_recv 3 10 0])
   \<and> os_recv (os_failing ENOTCONN) (us_s usock_tcp) 10 0 = (- 1, ENOTCONN)
   \<and> (- 1 :: ssize_t) <s 0
   \<and> ENOTCONN \<in> {ECONNRESET, ECONNREFUSED, ETIMEDOUT, EHOSTUNREACH, ENOTCONN}
   \<and> sp_usock_recv linux_build (os_failing ENOTCONN) usock_tcp 10 0 []
       = (Inr (- ECONNRESET, 10), [Sys_recv 3 10 0])"
proof -
  have l: "(0 :: ssize_t) <s 10" by (simp add: word_sless_alt)
  have n: "(- 1 :: ssize_t) <s 0" by (simp add: word_sless_alt)
  have r0: "os_recv (os_short 0) (us_s usock_tcp) 10 0 = (0, 0)"
    by (simp add: os_short_def os_fine_def)
  have r1: "os_recv (os_failing ENOTCONN) (us_s usock_tcp) 10 0 = (- 1, ENOTCONN)"
    by (simp add: os_failing_def os_fine_def)
  have c0: "(0 :: ssize_t) = 0 \<or> ((0 :: ssize_t) <s 0
            \<and> (0 :: c_int) \<in> {ECONNRESET, ECONNREFUSED, ETIMEDOUT, EHOSTUNREACH, ENOTCONN})"
    by simp
  have c1: "(- 1 :: ssize_t) = 0 \<or> ((- 1 :: ssize_t) <s 0
            \<and> ENOTCONN \<in> {ECONNRESET, ECONNREFUSED, ETIMEDOUT, EHOSTUNREACH, ENOTCONN})"
    using n by simp
  have s: "us_s usock_tcp = 3" by (simp add: usock_tcp_def)
  show ?thesis
    using l n r0 r1
      sp_usock_recv_connection_reset [OF l r0 c0, of linux_build 0 "[]"]
      sp_usock_recv_connection_reset [OF l r1 c1, of linux_build 0 "[]"]
    by (simp add: s)
qed

section \<open>Creating and registering a socket\<close>

lemmas tune_defs = sp_usock_tune_def tune_nosigpipe_def tune_nonblock_def tune_nodelay_def
  tune_nodelack_def tune_v6only_def init_cloexec_def

lemmas sock_consts = AF_INET_def AF_INET6_def SOCK_STREAM_def SOL_SOCKET_def IPPROTO_TCP_def
  IPPROTO_IPV6_def TCP_NODELAY_def F_SETFD_def F_GETFL_def F_SETFL_def O_NONBLOCK_def

text \<open>
  Claim C2 says that a socket created by \<^verbatim>\<open>sp_usock_init\<close> with an IP domain and type
  \<^verbatim>\<open>SOCK_STREAM\<close> gets \<^verbatim>\<open>TCP_NODELAY\<close> set. On a build whose headers define
  \<^verbatim>\<open>SOCK_CLOEXEC\<close> the code does not do it: \<^verbatim>\<open>sp_usock_init\<close> stores the type with
  \<^verbatim>\<open>SOCK_CLOEXEC\<close> or-ed in, and \<^verbatim>\<open>sp_usock_tune\<close> tests \<^verbatim>\<open>self->type == SOCK_STREAM\<close>,
  which is then false. On Linux, with every platform call succeeding, the run below
  creates the socket, returns 0, and makes no \<^verbatim>\<open>setsockopt\<close> call at all.
\<close>

theorem sp_usock_init_linux_skips_nodelay:
  "sp_usock_init linux_build os_fine usock_blank AF_INET SOCK_STREAM 0 []
     = (Inr (0, \<lparr> us_s = 3, us_domain = AF_INET, us_type = 524289, us_protocol = 0, us_aio = None \<rparr>),
        [Sys_socket AF_INET 524289 0, Sys_fcntl 3 F_GETFL 0, Sys_fcntl 3 F_SETFL O_NONBLOCK])
   \<and> Sys_setsockopt 3 IPPROTO_TCP TCP_NODELAY 1
        \<notin> set (snd (sp_usock_init linux_build os_fine usock_blank AF_INET SOCK_STREAM 0 []))"
  by (simp add: sp_usock_init_def linux_build_def os_fine_def usock_blank_def tune_defs io_defs
      sock_consts Let_def word_sless_alt)

text \<open>The same call on a build without \<^verbatim>\<open>SOCK_CLOEXEC\<close> does set \<^verbatim>\<open>TCP_NODELAY\<close>.\<close>

lemma sp_usock_init_legacy_sets_nodelay:
  "sp_usock_init legacy_build os_fine usock_blank AF_INET SOCK_STREAM 0 []
     = (Inr (0, \<lparr> us_s = 3, us_domain = AF_INET, us_type = SOCK_STREAM, us_protocol = 0, us_aio = None \<rparr>),
        [Sys_socket AF_INET SOCK_STREAM 0, Sys_fcntl 3 F_SETFD 1, Sys_fcntl 3 F_GETFL 0,
         Sys_fcntl 3 F_SETFL O_NONBLOCK, Sys_setsockopt 3 IPPROTO_TCP TCP_NODELAY 1])"
  by (simp add: sp_usock_init_def legacy_build_def linux_build_def os_fine_def usock_blank_def
      tune_defs io_defs sock_consts Let_def word_sless_alt)

text \<open>
  Claim C8. \<^verbatim>\<open>sp_cp_register_usock\<close> succeeds on a socket whose back-reference is unset
  and sets it to the given port; on a socket whose back-reference is set it ends in the
  fatal assertion. So of any run of registrations of a socket that starts unregistered
  only the empty run and the run of one registration come to an end: the back-reference
  is set at most once.
\<close>

theorem sp_cp_register_usock_once:
  "(us_aio usock = None \<longrightarrow> sp_cp_register_usock p usock = Inr (usock \<lparr> us_aio := Some p \<rparr>))
   \<and> (us_aio usock \<noteq> None \<longrightarrow> sp_cp_register_usock p usock = Inl AssertionFailed)
   \<and> (us_aio usock = None \<and> register_all ps usock = Inr usock'
        \<longrightarrow> (ps = [] \<and> usock' = usock) \<or> (ps = [hd ps] \<and> usock' = usock \<lparr> us_aio := Some (hd ps) \<rparr>))"
proof -
  have 3: "(ps = [] \<and> usock' = usock) \<or> (ps = [hd ps] \<and> usock' = usock \<lparr> us_aio := Some (hd ps) \<rparr>)"
    if a: "us_aio usock = None" and r: "register_all ps usock = Inr usock'"
  proof (cases ps)
    case Nil
    with r show ?thesis by simp
  next
    case (Cons p1 ps1)
    show ?thesis
    proof (cases ps1)
      case Nil
      with Cons a r show ?thesis by (simp add: sp_cp_register_usock_def)
    next
      case (Cons p2 ps2)
      with \<open>ps = p1 # ps1\<close> a r show ?thesis by (simp add: sp_cp_register_usock_def)
    qed
  qed
  then show ?thesis by (auto simp: sp_cp_register_usock_def)
qed

theorem sp_cp_register_usock_once_witness:
  "us_aio usock_tcp = None
   \<and> sp_cp_register_usock 1 usock_tcp = Inr (usock_tcp \<lparr> us_aio := Some 1 \<rparr>)
   \<and> us_aio (usock_tcp \<lparr> us_aio := Some 1 \<rparr>) \<noteq> None
   \<and> sp_cp_register_usock 2 (usock_tcp \<lparr> us_aio := Some 1 \<rparr>) = Inl AssertionFailed
   \<and> register_all [1] usock_tcp = Inr (usock_tcp \<lparr> us_aio := Some 1 \<rparr>)
   \<and> register_all [1, 2] usock_tcp = Inl AssertionFailed"
proof -
  have n: "us_aio usock_tcp = None" by (simp add: usock_tcp_def)
  have s: "us_aio (usock_tcp \<lparr> us_aio := Some 1 \<rparr>) \<noteq> None" by simp
  have a: "sp_cp_register_usock 1 usock_tcp = Inr (usock_tcp \<lparr> us_aio := Some 1 \<rparr>)"
    using n sp_cp_register_usock_once [of usock_tcp 1 "[1]" "usock_tcp \<lparr> us_aio := Some 1 \<rparr>"] by simp
  have b: "sp_cp_register_usock 2 (usock_tcp \<lparr> us_aio := Some 1 \<rparr>) = Inl AssertionFailed"
    using s sp_cp_register_usock_once [of "usock_tcp \<lparr> us_aio := Some 1 \<rparr>" 2 "[]" usock_tcp] by simp
  show ?thesis
    using n s a b by simp
qed

end
